theory Spec2Isabelle
  imports Main "HOL-Library.AList" "HOL-Library.Code_Target_Nat"
begin

section \<open>The field tree of the schema builder\<close>

text \<open>
  The development follows \<^verbatim>\<open>src/client/pages/Index.tsx\<close>. A field is the
  interface \<^verbatim>\<open>SchemaField\<close>; its optional members \<^verbatim>\<open>description\<close>,
  \<^verbatim>\<open>properties\<close> and \<^verbatim>\<open>items\<close> are options, \<open>None\<close> standing for an absent
  (undefined) member. The interface is recursive, so it is a datatype with selectors
  rather than a record. The selector of \<^verbatim>\<open>id\<close> is called \<open>id_field\<close>, since
  \<open>id\<close> is the identity function of HOL.
\<close>

datatype FieldType = String | Number | Boolean | Object | Array

datatype SchemaField = SchemaField
  (id_field: string)
  (name: string)
  (type: FieldType)
  (required: bool)
  (description: "string option")
  (properties: "SchemaField list option")
  (items: "SchemaField option")

text \<open>
  \<^verbatim>\<open>Partial<SchemaField>\<close>: every member may be missing. The editor only builds
  updates whose present members carry a value, so a member is either absent (\<open>None\<close>)
  or present with its value.
\<close>

record Partial =
  id_upd :: "string option"
  name_upd :: "string option"
  type_upd :: "FieldType option"
  required_upd :: "bool option"
  description_upd :: "string option"
  properties_upd :: "SchemaField list option"
  items_upd :: "SchemaField option"

definition no_updates :: Partial where
  "no_updates = \<lparr>id_upd = None, name_upd = None, type_upd = None, required_upd = None,
     description_upd = None, properties_upd = None, items_upd = None\<rparr>"

text \<open>The object spread \<^verbatim>\<open>{ ...field, ...updates }\<close>: a member of the update wins.\<close>

definition spread :: "SchemaField \<Rightarrow> Partial \<Rightarrow> SchemaField" where
  "spread field updates = SchemaField
     (case id_upd updates of Some v \<Rightarrow> v | None \<Rightarrow> id_field field)
     (case name_upd updates of Some v \<Rightarrow> v | None \<Rightarrow> name field)
     (case type_upd updates of Some v \<Rightarrow> v | None \<Rightarrow> type field)
     (case required_upd updates of Some v \<Rightarrow> v | None \<Rightarrow> required field)
     (case description_upd updates of Some v \<Rightarrow> Some v | None \<Rightarrow> description field)
     (case properties_upd updates of Some v \<Rightarrow> Some v | None \<Rightarrow> properties field)
     (case items_upd updates of Some v \<Rightarrow> Some v | None \<Rightarrow> items field)"

subsection \<open>Generated identifiers\<close>

text \<open>
  \<^verbatim>\<open>Date.now()\<close> is a reading of the clock, a natural number of milliseconds that
  the model takes as an argument; a template literal prints it in decimal. The suffix
  \<^verbatim>\<open>Math.random().toString(36).substr(2, 9)\<close> is a string computed from a floating
  point number, and is an argument as well.
\<close>

definition digit :: "nat \<Rightarrow> char" where
  "digit d = ''0123456789'' ! d"

fun decimal :: "nat \<Rightarrow> string" where
  "decimal n = (if n < 10 then [digit n] else decimal (n div 10) @ [digit (n mod 10)])"

declare decimal.simps [simp del]

definition newField :: "nat \<Rightarrow> string \<Rightarrow> SchemaField" where
  "newField now rnd =
     SchemaField (''field_'' @ decimal now @ ''_'' @ rnd) ''newField'' String False None None None"

subsection \<open>The callbacks of one field editor\<close>

text \<open>
  \<^verbatim>\<open>updateField\<close> of \<^verbatim>\<open>FieldEditor\<close> hands the merged field to
  \<^verbatim>\<open>onUpdate\<close>; the functions below return that argument.
\<close>

definition updateField :: "SchemaField \<Rightarrow> Partial \<Rightarrow> SchemaField" where
  "updateField field updates = spread field updates"

text \<open>\<^verbatim>\<open>field.properties || []\<close>: an array is truthy, also the empty one.\<close>

definition or_empty :: "'a list option \<Rightarrow> 'a list" where
  "or_empty xs = (case xs of Some ys \<Rightarrow> ys | None \<Rightarrow> [])"

text \<open>
  \<^verbatim>\<open>Array.prototype.filter\<close> with a callback that also takes the index of the
  element.
\<close>

fun filter_from :: "nat \<Rightarrow> ('a \<Rightarrow> nat \<Rightarrow> bool) \<Rightarrow> 'a list \<Rightarrow> 'a list" where
  "filter_from i p [] = []"
| "filter_from i p (x # xs) =
     (if p x i then x # filter_from (Suc i) p xs else filter_from (Suc i) p xs)"

definition array_filter :: "('a \<Rightarrow> nat \<Rightarrow> bool) \<Rightarrow> 'a list \<Rightarrow> 'a list" where
  "array_filter p xs = filter_from 0 p xs"

definition addProperty :: "SchemaField \<Rightarrow> nat \<Rightarrow> string \<Rightarrow> SchemaField" where
  "addProperty field now rnd =
     (let newProperty = newField now rnd
      in updateField field
           (no_updates\<lparr>properties_upd := Some (or_empty (properties field) @ [newProperty])\<rparr>))"

text \<open>
  \<^verbatim>\<open>updateProperty\<close> stores into a copy of the array. The editor calls it with the
  index of a child it has rendered, which is below the length; the model makes that
  call under the same condition (see \<open>FieldEditor\<close> below), so the store is
  \<open>list_update\<close> in its range.
\<close>

definition updateProperty :: "SchemaField \<Rightarrow> nat \<Rightarrow> SchemaField \<Rightarrow> SchemaField" where
  "updateProperty field index updatedProperty =
     (let newProperties = (or_empty (properties field))[index := updatedProperty]
      in updateField field (no_updates\<lparr>properties_upd := Some newProperties\<rparr>))"

definition deleteProperty :: "SchemaField \<Rightarrow> nat \<Rightarrow> SchemaField" where
  "deleteProperty field index =
     (let newProperties =
            (case properties field of
               Some props \<Rightarrow> array_filter (\<lambda>_ i. i \<noteq> index) props
             | None \<Rightarrow> [])
      in updateField field (no_updates\<lparr>properties_upd := Some newProperties\<rparr>))"

definition updateArrayItems :: "SchemaField \<Rightarrow> SchemaField \<Rightarrow> SchemaField" where
  "updateArrayItems field updatedItems =
     updateField field (no_updates\<lparr>items_upd := Some updatedItems\<rparr>)"

text \<open>
  \<^verbatim>\<open>onValueChange\<close> of the type selector. \<^verbatim>\<open>!field.properties\<close> and
  \<^verbatim>\<open>!field.items\<close> hold exactly when the member is absent: an array and an object
  are truthy.
\<close>

definition onValueChange :: "SchemaField \<Rightarrow> FieldType \<Rightarrow> nat \<Rightarrow> SchemaField" where
  "onValueChange field value now =
     (let updates = no_updates\<lparr>type_upd := Some value\<rparr>;
          updates = (if value = Object \<and> properties field = None
                     then updates\<lparr>properties_upd := Some []\<rparr> else updates);
          updates = (if value = Array \<and> items field = None
                     then updates\<lparr>items_upd := Some
                            (SchemaField (''items_'' @ decimal now) ''item'' String False
                               None None None)\<rparr>
                     else updates)
      in updateField field updates)"

subsection \<open>Events of the editor tree\<close>

text \<open>
  A rendered \<^verbatim>\<open>FieldEditor\<close> reacts to the events of its own controls and renders
  an editor for each property of an object field and for the items of an array field.
  An event is addressed by the path from the editor to the editor whose control is
  used. The result is the callback the editor invokes on its parent:
  \<^verbatim>\<open>onUpdate\<close> with a field, \<^verbatim>\<open>onDelete\<close>, or none. The delete callback passed to
  the editor of the items is \<^verbatim>\<open>() => {}\<close>. Children are taken to be expanded.
\<close>

datatype Step = Property nat | Items

datatype Event =
    NameChange string
  | TypeChange FieldType nat
  | RequiredClick
  | DescriptionChange string
  | AddPropertyClick nat string
  | DeleteClick

datatype Callback = OnUpdate SchemaField | OnDelete | NoCallback

fun FieldEditor :: "SchemaField \<Rightarrow> Step list \<Rightarrow> Event \<Rightarrow> Callback" where
  "FieldEditor field [] ev =
     (case ev of
        NameChange v \<Rightarrow> OnUpdate (updateField field (no_updates\<lparr>name_upd := Some v\<rparr>))
      | TypeChange value now \<Rightarrow> OnUpdate (onValueChange field value now)
      | RequiredClick \<Rightarrow>
          OnUpdate (updateField field (no_updates\<lparr>required_upd := Some (\<not> required field)\<rparr>))
      | DescriptionChange v \<Rightarrow>
          OnUpdate (updateField field (no_updates\<lparr>description_upd := Some v\<rparr>))
      | AddPropertyClick now rnd \<Rightarrow>
          if type field = Object then OnUpdate (addProperty field now rnd) else NoCallback
      | DeleteClick \<Rightarrow> OnDelete)"
| "FieldEditor field (Property index # path) ev =
     (case properties field of
        Some props \<Rightarrow>
          if type field = Object \<and> index < length props then
            (case FieldEditor (props ! index) path ev of
               OnUpdate updatedProperty \<Rightarrow> OnUpdate (updateProperty field index updatedProperty)
             | OnDelete \<Rightarrow> OnUpdate (deleteProperty field index)
             | NoCallback \<Rightarrow> NoCallback)
          else NoCallback
      | None \<Rightarrow> NoCallback)"
| "FieldEditor field (Items # path) ev =
     (case items field of
        Some item \<Rightarrow>
          if type field = Array then
            (case FieldEditor item path ev of
               OnUpdate updatedItems \<Rightarrow> OnUpdate (updateArrayItems field updatedItems)
             | OnDelete \<Rightarrow> NoCallback
             | NoCallback \<Rightarrow> NoCallback)
          else NoCallback
      | None \<Rightarrow> NoCallback)"

subsection \<open>The page: the root sequence and its state\<close>

definition initial_schema :: "SchemaField list" where
  "initial_schema =
     [SchemaField ''field_1'' ''name'' String True (Some ''The name of the user'') None None,
      SchemaField ''field_2'' ''age'' Number False (Some ''The age of the user'') None None]"

definition addField :: "SchemaField list \<Rightarrow> nat \<Rightarrow> string \<Rightarrow> SchemaField list" where
  "addField schema now rnd = schema @ [newField now rnd]"

definition Index_updateField :: "SchemaField list \<Rightarrow> nat \<Rightarrow> SchemaField \<Rightarrow> SchemaField list" where
  "Index_updateField schema index updatedField = schema[index := updatedField]"

definition deleteField :: "SchemaField list \<Rightarrow> nat \<Rightarrow> SchemaField list" where
  "deleteField schema index = array_filter (\<lambda>_ i. i \<noteq> index) schema"

datatype Action = AddFieldClick nat string | FieldEvent nat "Step list" Event

text \<open>The state \<^verbatim>\<open>schema\<close> after one action; \<open>run\<close> handles them one after another.\<close>

fun Index :: "SchemaField list \<Rightarrow> Action \<Rightarrow> SchemaField list" where
  "Index schema (AddFieldClick now rnd) = addField schema now rnd"
| "Index schema (FieldEvent index path ev) =
     (if index < length schema then
        (case FieldEditor (schema ! index) path ev of
           OnUpdate updatedField \<Rightarrow> Index_updateField schema index updatedField
         | OnDelete \<Rightarrow> deleteField schema index
         | NoCallback \<Rightarrow> schema)
      else schema)"

fun run :: "SchemaField list \<Rightarrow> Action list \<Rightarrow> SchemaField list" where
  "run schema [] = schema"
| "run schema (a # as) = run (Index schema a) as"

section \<open>The generated JSON schema\<close>

text \<open>
  The values \<^verbatim>\<open>generateJsonSchema\<close> builds are strings, arrays of strings and
  objects. An object is the list of its own properties in the order in which the object
  lists its keys, which is the order \<^verbatim>\<open>JSON.stringify\<close> prints: first the keys that
  are array indices, ascending, then the other keys in the order of their creation.
\<close>

datatype json = JString string | JArray "json list" | JObject "(string \<times> json) list"

text \<open>
  A key is an array index when it is the decimal numeral, without sign and without
  leading zeros, of a number from \<open>0\<close> to \<open>2\<^sup>3\<^sup>2 - 2\<close>.
\<close>

definition digit_value :: "char \<Rightarrow> nat option" where
  "digit_value c =
     map_of [(CHR ''0'', 0), (CHR ''1'', 1), (CHR ''2'', 2), (CHR ''3'', 3), (CHR ''4'', 4),
             (CHR ''5'', 5), (CHR ''6'', 6), (CHR ''7'', 7), (CHR ''8'', 8), (CHR ''9'', 9)] c"

fun parse_digits :: "nat \<Rightarrow> string \<Rightarrow> nat option" where
  "parse_digits n [] = Some n"
| "parse_digits n (c # cs) =
     (case digit_value c of Some d \<Rightarrow> parse_digits (10 * n + d) cs | None \<Rightarrow> None)"

definition array_index :: "string \<Rightarrow> nat option" where
  "array_index key =
     (case key of
        [] \<Rightarrow> None
      | c # cs \<Rightarrow>
          if c = CHR ''0'' \<and> cs \<noteq> [] then None
          else (case parse_digits 0 key of
                  Some n \<Rightarrow> if n \<le> 4294967294 then Some n else None
                | None \<Rightarrow> None))"

text \<open>A new key that is the array index \<open>n\<close> goes before the first key that is no
  array index or is a greater one.\<close>

fun put_index :: "nat \<Rightarrow> string \<Rightarrow> json \<Rightarrow> (string \<times> json) list \<Rightarrow> (string \<times> json) list" where
  "put_index n key v [] = [(key, v)]"
| "put_index n key v (kw # obj) =
     (case array_index (fst kw) of
        Some m \<Rightarrow> if m < n then kw # put_index n key v obj else (key, v) # kw # obj
      | None \<Rightarrow> (key, v) # kw # obj)"

text \<open>
  An assignment \<^verbatim>\<open>obj[key] = v\<close> to an ordinary object replaces the value of an own
  property where it stands and creates a new one otherwise, except for the key
  \<^verbatim>\<open>__proto__\<close>: that key is an accessor of \<^verbatim>\<open>Object.prototype\<close>, the
  assignment runs its setter and creates no own property.
\<close>

definition assign :: "(string \<times> json) list \<Rightarrow> string \<Rightarrow> json \<Rightarrow> (string \<times> json) list" where
  "assign obj key v =
     (if key = ''__proto__'' then obj
      else case array_index key of
             Some n \<Rightarrow>
               if map_of obj key = None then put_index n key v obj
               else AList.update key v obj
           | None \<Rightarrow> AList.update key v obj)"

text \<open>The value of an own property of an object, \<open>None\<close> when it has none of that key.\<close>

fun get_prop :: "json \<Rightarrow> string \<Rightarrow> json option" where
  "get_prop (JObject obj) key = map_of obj key"
| "get_prop _ key = None"

fun type_string :: "FieldType \<Rightarrow> string" where
  "type_string String = ''string''"
| "type_string Number = ''number''"
| "type_string Boolean = ''boolean''"
| "type_string Object = ''object''"
| "type_string Array = ''array''"

text \<open>
  \<^verbatim>\<open>convertField\<close>. The description is added when it is truthy, a non-empty
  string. The loop \<^verbatim>\<open>forEach\<close> is a fold over the pair of the properties object
  and the array \<^verbatim>\<open>required\<close>.
\<close>

function convertField :: "SchemaField \<Rightarrow> json" where
  "convertField field =
    (let baseSchema = [(''type'', JString (type_string (type field)))];
         baseSchema =
           (case description field of
              Some d \<Rightarrow> if d \<noteq> [] then assign baseSchema ''description'' (JString d)
                        else baseSchema
            | None \<Rightarrow> baseSchema);
         baseSchema =
           (case properties field of
              Some props \<Rightarrow>
                if type field = Object then
                  (let (ps, req) =
                         fold (\<lambda>prop (ps, req).
                                 (assign ps (name prop) (convertField prop),
                                  if required prop then req @ [name prop] else req))
                           props ([], []);
                       baseSchema = assign baseSchema ''properties'' (JObject ps)
                   in if length req > 0
                      then assign baseSchema ''required'' (JArray (map JString req))
                      else baseSchema)
                else baseSchema
            | None \<Rightarrow> baseSchema);
         baseSchema =
           (case items field of
              Some item \<Rightarrow>
                if type field = Array
                then assign baseSchema ''items'' (convertField item)
                else baseSchema
            | None \<Rightarrow> baseSchema)
     in JObject baseSchema)"
  by pat_completeness auto

termination convertField
proof (relation "measure size")
  show "wf (measure (size :: SchemaField \<Rightarrow> nat))"
    by simp
next
  fix field :: SchemaField
  fix props :: "SchemaField list"
  fix p :: SchemaField
  assume "properties field = Some props" and "p \<in> set props"
  then show "(p, field) \<in> measure size"
    by (cases field)
       (auto simp: less_Suc_eq_le
             dest!: size_list_estimation'[where f = size and y = "size p"])
next
  fix field :: SchemaField
  fix item :: SchemaField
  assume "items field = Some item"
  then show "(item, field) \<in> measure size"
    by (cases field) auto
qed

declare convertField.simps [simp del]

text \<open>
  \<^verbatim>\<open>generateJsonSchema\<close>: the object starts with the three keys, the loop fills
  \<^verbatim>\<open>properties\<close> and \<^verbatim>\<open>required\<close>, and \<^verbatim>\<open>required\<close> is deleted when it is
  empty.
\<close>

definition generateJsonSchema :: "SchemaField list \<Rightarrow> json" where
  "generateJsonSchema schema =
    (let (ps, req) =
           fold (\<lambda>field (ps, req).
                   (assign ps (name field) (convertField field),
                    if required field then req @ [name field] else req))
             schema ([], []);
         jsonSchema = [(''type'', JString ''object''), (''properties'', JObject ps),
                       (''required'', JArray (map JString req))]
     in JObject (if length req = 0 then AList.delete ''required'' jsonSchema else jsonSchema))"

section \<open>Notions used in the statements\<close>

text \<open>
  All nodes of a field: the field itself, the nodes of its properties and the nodes of
  its items, wherever these members are present, whatever the type of the field.
\<close>

fun nodes :: "SchemaField \<Rightarrow> SchemaField list" where
  "nodes (SchemaField i n t r d ps it) =
     SchemaField i n t r d ps it
       # (case ps of Some props \<Rightarrow> concat (map nodes props) | None \<Rightarrow> [])
       @ (case it of Some item \<Rightarrow> nodes item | None \<Rightarrow> [])"

definition forest_nodes :: "SchemaField list \<Rightarrow> SchemaField list" where
  "forest_nodes schema = concat (map nodes schema)"

text \<open>
  The shape of one node. \<open>shape_exact\<close>: the properties are present exactly for an
  object and the items exactly for an array. \<open>shape_present\<close>: an object has
  properties and an array has items.
\<close>

definition shape_exact :: "SchemaField \<Rightarrow> bool" where
  "shape_exact field =
     ((properties field \<noteq> None) = (type field = Object)
      \<and> (items field \<noteq> None) = (type field = Array))"

definition shape_present :: "SchemaField \<Rightarrow> bool" where
  "shape_present field =
     ((type field = Object \<longrightarrow> properties field \<noteq> None)
      \<and> (type field = Array \<longrightarrow> items field \<noteq> None))"

text \<open>A field with the identifier of every node blanked.\<close>

fun strip_ids :: "SchemaField \<Rightarrow> SchemaField" where
  "strip_ids (SchemaField i n t r d ps it) =
     SchemaField [] n t r d (map_option (map strip_ids) ps) (map_option strip_ids it)"

text \<open>The keys of all objects inside a value.\<close>

fun json_keys :: "json \<Rightarrow> string list" where
  "json_keys (JString s) = []"
| "json_keys (JArray vs) = concat (map json_keys vs)"
| "json_keys (JObject obj) = concat (map (\<lambda>kv. fst kv # json_keys (snd kv)) obj)"

text \<open>
  Every key of a value, with the path of keys that leads from the value to the object it
  is a key of (an array adds no step).
\<close>

fun keys_with_path :: "json \<Rightarrow> (string list \<times> string) list" where
  "keys_with_path (JString s) = []"
| "keys_with_path (JArray vs) = concat (map keys_with_path vs)"
| "keys_with_path (JObject obj) =
     concat (map (\<lambda>kv. ([], fst kv) # map (apfst ((#) (fst kv))) (keys_with_path (snd kv))) obj)"

text \<open>
  The places of the compiled schema where the name of a field is a key: the properties
  mapping of every object field that is compiled, given as the path from the schema of
  the field, together with the name. Properties of a field that is not an object and
  items of a field that is not an array are not compiled and give no place.
\<close>

fun property_keys :: "SchemaField \<Rightarrow> (string list \<times> string) list" where
  "property_keys (SchemaField i n t r d ps it) =
     (case ps of
        Some props \<Rightarrow>
          if t = Object then
            map (apfst ((#) ''properties''))
              (concat (map (\<lambda>p. ([], name p) # map (apfst ((#) (name p))) (property_keys p))
                 props))
          else []
      | None \<Rightarrow> [])
     @ (case it of
          Some item \<Rightarrow> if t = Array then map (apfst ((#) ''items'')) (property_keys item) else []
        | None \<Rightarrow> [])"

definition mapping_keys :: "SchemaField list \<Rightarrow> (string list \<times> string) list" where
  "mapping_keys props =
     concat (map (\<lambda>p. ([], name p) # map (apfst ((#) (name p))) (property_keys p)) props)"

definition root_property_keys :: "SchemaField list \<Rightarrow> (string list \<times> string) list" where
  "root_property_keys schema = map (apfst ((#) ''properties'')) (mapping_keys schema)"

text \<open>The keys that \<^verbatim>\<open>convertField\<close> and \<^verbatim>\<open>generateJsonSchema\<close> write themselves.\<close>

definition fixed_keys :: "string set" where
  "fixed_keys = {''type'', ''description'', ''properties'', ''required'', ''items''}"

section \<open>Deleting a sibling\<close>

lemma filter_from_neq:
  "filter_from k (\<lambda>_ i. i \<noteq> index) xs =
     (if index < k then xs else take (index - k) xs @ drop (Suc (index - k)) xs)"
proof (induction xs arbitrary: k)
  case Nil
  then show ?case by simp
next
  case (Cons x xs)
  note IH = Cons.IH [of "Suc k"]
  consider (before) "index < k" | (here) "index = k" | (after) "k < index"
    by linarith
  then show ?case
  proof cases
    case before
    with IH show ?thesis by simp
  next
    case here
    with IH show ?thesis by simp
  next
    case after
    then obtain d where d: "index - k = Suc d" "index - Suc k = d"
      by (metis Suc_diff_Suc diff_Suc_eq_diff_pred diff_Suc_1)
    from after have "\<not> index < Suc k" "\<not> index < k" "k \<noteq> index"
      by simp_all
    with IH d show ?thesis by simp
  qed
qed

lemma deleteField_eq: "deleteField schema index = take index schema @ drop (Suc index) schema"
  by (simp add: deleteField_def array_filter_def filter_from_neq)

lemma deleteProperty_eq:
  "properties field = Some props \<Longrightarrow>
     deleteProperty field index =
       SchemaField (id_field field) (name field) (type field) (required field)
         (description field) (Some (deleteField props index)) (items field)"
  by (simp add: deleteProperty_def deleteField_def updateField_def spread_def no_updates_def)

text \<open>
  Claim C7. Deleting index \<open>i\<close> from a sequence \<open>xs\<close> of \<open>n\<close> siblings, with
  \<open>i < n\<close>, leaves the \<open>n - 1\<close> other nodes in their order: the nodes before \<open>i\<close>
  keep their index and the nodes after it move down by one. This holds for
  \<^verbatim>\<open>deleteField\<close> on the root sequence, and \<^verbatim>\<open>deleteProperty\<close> stores the same
  sequence as the properties of an object field.
\<close>

theorem delete_index_stable:
  assumes "i < length xs"
  shows "deleteField xs i = take i xs @ drop (Suc i) xs
     \<and> length (deleteField xs i) = length xs - 1
     \<and> (\<forall>j < i. deleteField xs i ! j = xs ! j)
     \<and> (\<forall>j. i \<le> j \<and> j < length xs - 1 \<longrightarrow> deleteField xs i ! j = xs ! Suc j)
     \<and> (properties field = Some xs \<longrightarrow>
          properties (deleteProperty field i) = Some (deleteField xs i))"
proof -
  have e: "deleteField xs i = take i xs @ drop (Suc i) xs"
    by (rule deleteField_eq)
  have l: "length (deleteField xs i) = length xs - 1"
    using assms by (simp add: e)
  have a: "\<forall>j < i. deleteField xs i ! j = xs ! j"
    using assms by (simp add: e nth_append)
  have b: "\<forall>j. i \<le> j \<and> j < length xs - 1 \<longrightarrow> deleteField xs i ! j = xs ! Suc j"
    using assms by (auto simp: e nth_append min_def)
  have c: "properties field = Some xs \<longrightarrow>
             properties (deleteProperty field i) = Some (deleteField xs i)"
    by (simp add: deleteProperty_eq)
  from e l a b c show ?thesis by blast
qed

theorem delete_index_stable_witness:
  "(0::nat) < length initial_schema
     \<and> deleteField initial_schema 0 =
         [SchemaField ''field_2'' ''age'' Number False (Some ''The age of the user'') None None]
     \<and> properties (deleteProperty
           (SchemaField ''field_3'' ''user'' Object False None (Some initial_schema) None) 0) =
         Some [SchemaField ''field_2'' ''age'' Number False (Some ''The age of the user'')
                 None None]"
  using delete_index_stable [of 0 initial_schema
      "SchemaField ''field_3'' ''user'' Object False None (Some initial_schema) None"]
  by (simp add: initial_schema_def)

section \<open>The type selector\<close>

text \<open>
  What the type selector stores. Switching a field without properties to
  \<^verbatim>\<open>object\<close> gives it the empty sequence of properties; switching a field without
  items to \<^verbatim>\<open>array\<close> gives it the default items node, with name \<^verbatim>\<open>item\<close>, type
  \<^verbatim>\<open>string\<close>, not required, and the identifier \<^verbatim>\<open>items_\<close> followed by the clock
  reading of the switch. Every other member is the one of the old field, the type being
  the new one.
\<close>

lemma onValueChange_initialises:
  "(properties field = None \<longrightarrow>
      onValueChange field Object now =
        SchemaField (id_field field) (name field) Object (required field) (description field)
          (Some []) (items field))
   \<and> (items field = None \<longrightarrow>
      onValueChange field Array now =
        SchemaField (id_field field) (name field) Array (required field) (description field)
          (properties field)
          (Some (SchemaField (''items_'' @ decimal now) ''item'' String False None None None)))"
  by (simp add: onValueChange_def updateField_def spread_def no_updates_def Let_def)


text \<open>
  Claim C5. An object field with a non-empty sequence of properties that is switched to
  another type and then back to \<^verbatim>\<open>object\<close> has the properties it had before.
\<close>

theorem kind_round_trip:
  assumes "type field = Object" and "properties field = Some props" and "props \<noteq> []"
    and "value \<noteq> Object"
  shows "properties (onValueChange (onValueChange field value now) Object now') = Some props
     \<and> type (onValueChange (onValueChange field value now) Object now') = Object"
  using assms
  by (simp add: onValueChange_def updateField_def spread_def no_updates_def Let_def)

theorem kind_round_trip_witness:
  "properties (onValueChange (onValueChange
       (SchemaField ''field_3'' ''user'' Object False None (Some initial_schema) None)
       Array 1730000000000) Object 1730000000001) = Some initial_schema
   \<and> type (onValueChange (onValueChange
       (SchemaField ''field_3'' ''user'' Object False None (Some initial_schema) None)
       Array 1730000000000) Object 1730000000001) = Object"
  using kind_round_trip [of "SchemaField ''field_3'' ''user'' Object False None
      (Some initial_schema) None" initial_schema Array 1730000000000 1730000000001]
  by (simp add: initial_schema_def)

section \<open>The delete control of the items of an array\<close>

lemma FieldEditor_items_delete: "FieldEditor field (path @ [Items]) DeleteClick = NoCallback"
proof (induction path arbitrary: field)
  case Nil
  then show ?case by (simp split: option.split)
next
  case (Cons step path)
  then show ?case by (cases step) (simp_all split: option.split)
qed

text \<open>
  Claim C8. The delete control of the editor of the items of an array field, wherever
  that field is in the tree, makes no editor above it call \<^verbatim>\<open>onUpdate\<close> or
  \<^verbatim>\<open>onDelete\<close>, and leaves the whole root sequence as it is.
\<close>

theorem delete_array_item_noop:
  "FieldEditor field (path @ [Items]) DeleteClick = NoCallback
   \<and> Index schema (FieldEvent index (path @ [Items]) DeleteClick) = schema"
  by (simp add: FieldEditor_items_delete)

section \<open>The shape of the nodes under editing\<close>

lemma list_all_nodes:
  "list_all P (nodes field) =
     (P field
      \<and> (\<forall>p \<in> set (or_empty (properties field)). list_all P (nodes p))
      \<and> (\<forall>item. items field = Some item \<longrightarrow> list_all P (nodes item)))"
  by (cases field) (auto simp: or_empty_def list_all_iff split: option.splits)

lemma list_all_forest:
  "list_all P (forest_nodes schema) = (\<forall>field \<in> set schema. list_all P (nodes field))"
  by (auto simp: forest_nodes_def list_all_iff)

lemma spread_sel:
  "name (spread field u) = (case name_upd u of Some v \<Rightarrow> v | None \<Rightarrow> name field)"
  "type (spread field u) = (case type_upd u of Some v \<Rightarrow> v | None \<Rightarrow> type field)"
  "required (spread field u) = (case required_upd u of Some v \<Rightarrow> v | None \<Rightarrow> required field)"
  "properties (spread field u) =
     (case properties_upd u of Some v \<Rightarrow> Some v | None \<Rightarrow> properties field)"
  "items (spread field u) = (case items_upd u of Some v \<Rightarrow> Some v | None \<Rightarrow> items field)"
  by (simp_all add: spread_def)

lemma set_deleteField: "set (deleteField xs i) \<subseteq> set xs"
proof -
  have "set (take i xs) \<subseteq> set xs" and "set (drop (Suc i) xs) \<subseteq> set xs"
    by (rule set_take_subset, rule set_drop_subset)
  then show ?thesis by (simp add: deleteField_eq)
qed

lemma list_all_nodes_spread:
  "list_all P (nodes (spread field u)) =
     (P (spread field u)
      \<and> (\<forall>p \<in> set (or_empty (properties (spread field u))). list_all P (nodes p))
      \<and> (\<forall>item. items (spread field u) = Some item \<longrightarrow> list_all P (nodes item)))"
  by (rule list_all_nodes)

lemma present_spread:
  assumes "list_all shape_present (nodes field)"
    and "\<And>v. type_upd u = Some v \<Longrightarrow>
           (v = Object \<longrightarrow> properties field \<noteq> None \<or> properties_upd u \<noteq> None)
           \<and> (v = Array \<longrightarrow> items field \<noteq> None \<or> items_upd u \<noteq> None)"
    and "\<And>props p. properties_upd u = Some props \<Longrightarrow> p \<in> set props
           \<Longrightarrow> list_all shape_present (nodes p)"
    and "\<And>item. items_upd u = Some item \<Longrightarrow> list_all shape_present (nodes item)"
  shows "list_all shape_present (nodes (spread field u))"
proof -
  from assms(1) have own: "shape_present field"
    and props: "\<And>p. p \<in> set (or_empty (properties field)) \<Longrightarrow> list_all shape_present (nodes p)"
    and item: "\<And>item. items field = Some item \<Longrightarrow> list_all shape_present (nodes item)"
    using list_all_nodes [of shape_present field] by blast+
  have 1: "shape_present (spread field u)"
    using own assms(2)
    by (auto simp: shape_present_def spread_sel split: option.splits)
  have 2: "\<forall>p \<in> set (or_empty (properties (spread field u))). list_all shape_present (nodes p)"
    using props assms(3)
    by (auto simp: spread_sel or_empty_def split: option.splits)
  have 3: "\<forall>item. items (spread field u) = Some item \<longrightarrow> list_all shape_present (nodes item)"
    using item assms(4)
    by (auto simp: spread_sel split: option.splits)
  from 1 2 3 show ?thesis
    by (simp only: list_all_nodes_spread simp_thms)
qed

lemma present_own_event:
  assumes "list_all shape_present (nodes field)"
    and "FieldEditor field [] ev = OnUpdate g"
  shows "list_all shape_present (nodes g)"
proof (cases ev)
  case (NameChange v)
  with assms(2) have "g = spread field (no_updates\<lparr>name_upd := Some v\<rparr>)"
    by (simp add: updateField_def)
  then show ?thesis
    using assms(1) by (auto intro!: present_spread simp: no_updates_def)
next
  case (TypeChange v now)
  have item: "list_all shape_present
      (nodes (SchemaField (''items_'' @ decimal now) ''item'' String False None None None))"
    by (simp add: shape_present_def)
  from TypeChange assms(2) have "g = onValueChange field v now"
    by simp
  then show ?thesis
    unfolding onValueChange_def updateField_def Let_def
    using assms(1) item by (auto intro!: present_spread simp: no_updates_def)
next
  case RequiredClick
  with assms(2) have "g = spread field (no_updates\<lparr>required_upd := Some (\<not> required field)\<rparr>)"
    by (simp add: updateField_def)
  then show ?thesis
    using assms(1) by (auto intro!: present_spread simp: no_updates_def)
next
  case (DescriptionChange v)
  with assms(2) have "g = spread field (no_updates\<lparr>description_upd := Some v\<rparr>)"
    by (simp add: updateField_def)
  then show ?thesis
    using assms(1) by (auto intro!: present_spread simp: no_updates_def)
next
  case (AddPropertyClick now rnd)
  have new: "list_all shape_present (nodes (newField now rnd))"
    by (simp add: newField_def shape_present_def)
  from assms(1) have props:
    "\<And>p. p \<in> set (or_empty (properties field)) \<Longrightarrow> list_all shape_present (nodes p)"
    using list_all_nodes [of shape_present field] by blast
  from AddPropertyClick assms(2) have "g = addProperty field now rnd"
    by (simp split: if_splits)
  then show ?thesis
    unfolding addProperty_def updateField_def Let_def
    using assms(1) new props by (auto intro!: present_spread simp: no_updates_def)
next
  case DeleteClick
  with assms show ?thesis by simp
qed

lemma present_updateProperty:
  assumes "list_all shape_present (nodes field)" and "list_all shape_present (nodes c)"
  shows "list_all shape_present (nodes (updateProperty field index c))"
proof -
  from assms(1) have props:
    "\<And>p. p \<in> set (or_empty (properties field)) \<Longrightarrow> list_all shape_present (nodes p)"
    using list_all_nodes [of shape_present field] by blast
  have "set ((or_empty (properties field))[index := c]) \<subseteq> insert c (set (or_empty (properties field)))"
    by (rule set_update_subset_insert)
  then have "\<And>p. p \<in> set ((or_empty (properties field))[index := c])
      \<Longrightarrow> list_all shape_present (nodes p)"
    using props assms(2) by blast
  then show ?thesis
    unfolding updateProperty_def updateField_def Let_def
    using assms(1) by (auto intro!: present_spread simp: no_updates_def)
qed

lemma present_deleteProperty:
  assumes "list_all shape_present (nodes field)"
  shows "list_all shape_present (nodes (deleteProperty field index))"
proof -
  from assms(1) have props:
    "\<And>p. p \<in> set (or_empty (properties field)) \<Longrightarrow> list_all shape_present (nodes p)"
    using list_all_nodes [of shape_present field] by blast
  have "\<And>p. p \<in> set (case properties field of
               Some props \<Rightarrow> array_filter (\<lambda>_ i. i \<noteq> index) props
             | None \<Rightarrow> []) \<Longrightarrow> list_all shape_present (nodes p)"
    using props set_deleteField [of _ index]
    by (auto simp: or_empty_def deleteField_def split: option.splits)
  then show ?thesis
    unfolding deleteProperty_def updateField_def Let_def
    using assms(1) by (auto intro!: present_spread simp: no_updates_def)
qed

lemma present_updateArrayItems:
  assumes "list_all shape_present (nodes field)" and "list_all shape_present (nodes c)"
  shows "list_all shape_present (nodes (updateArrayItems field c))"
  unfolding updateArrayItems_def updateField_def
  using assms by (auto intro!: present_spread simp: no_updates_def)

lemma present_FieldEditor:
  "list_all shape_present (nodes field) \<Longrightarrow> FieldEditor field path ev = OnUpdate g
     \<Longrightarrow> list_all shape_present (nodes g)"
proof (induction path arbitrary: field g)
  case Nil
  then show ?case by (rule present_own_event)
next
  case (Cons step path)
  show ?case
  proof (cases step)
    case (Property index)
    from Cons.prems(2) Property obtain props where
      props: "properties field = Some props" "type field = Object" "index < length props"
      by (auto split: option.splits if_splits)
    then have child: "list_all shape_present (nodes (props ! index))"
      using Cons.prems(1) by (simp add: list_all_nodes [of _ field] or_empty_def)
    show ?thesis
    proof (cases "FieldEditor (props ! index) path ev")
      case (OnUpdate c)
      with child have "list_all shape_present (nodes c)"
        by (rule Cons.IH)
      moreover from Cons.prems(2) Property props OnUpdate
      have "g = updateProperty field index c" by simp
      ultimately show ?thesis
        using Cons.prems(1) by (simp add: present_updateProperty)
    next
      case OnDelete
      with Cons.prems(2) Property props have "g = deleteProperty field index" by simp
      then show ?thesis
        using Cons.prems(1) by (simp add: present_deleteProperty)
    next
      case NoCallback
      with Cons.prems(2) Property props show ?thesis by simp
    qed
  next
    case Items
    from Cons.prems(2) Items obtain item where
      item: "items field = Some item" "type field = Array"
      by (auto split: option.splits if_splits)
    then have child: "list_all shape_present (nodes item)"
      using Cons.prems(1) by (simp add: list_all_nodes [of _ field])
    show ?thesis
    proof (cases "FieldEditor item path ev")
      case (OnUpdate c)
      with child have "list_all shape_present (nodes c)"
        by (rule Cons.IH)
      moreover from Cons.prems(2) Items item OnUpdate
      have "g = updateArrayItems field c" by simp
      ultimately show ?thesis
        using Cons.prems(1) by (simp add: present_updateArrayItems)
    next
      case OnDelete
      with Cons.prems(2) Items item show ?thesis by simp
    next
      case NoCallback
      with Cons.prems(2) Items item show ?thesis by simp
    qed
  qed
qed

lemma present_Index:
  assumes "list_all shape_present (forest_nodes schema)"
  shows "list_all shape_present (forest_nodes (Index schema a))"
proof (cases a)
  case (AddFieldClick now rnd)
  have "list_all shape_present (nodes (newField now rnd))"
    by (simp add: newField_def shape_present_def)
  with assms AddFieldClick show ?thesis
    by (simp add: list_all_forest addField_def)
next
  case (FieldEvent index path ev)
  show ?thesis
  proof (cases "index < length schema")
    case False
    with assms FieldEvent show ?thesis by simp
  next
    case True
    with assms have child: "list_all shape_present (nodes (schema ! index))"
      by (simp add: list_all_forest)
    show ?thesis
    proof (cases "FieldEditor (schema ! index) path ev")
      case (OnUpdate g)
      with child have "list_all shape_present (nodes g)"
        by (rule present_FieldEditor)
      moreover have "set (schema[index := g]) \<subseteq> insert g (set schema)"
        by (rule set_update_subset_insert)
      ultimately show ?thesis
        using assms FieldEvent True OnUpdate
        by (auto simp: list_all_forest Index_updateField_def)
    next
      case OnDelete
      have "set (deleteField schema index) \<subseteq> set schema"
        by (rule set_deleteField)
      with assms FieldEvent True OnDelete show ?thesis
        by (auto simp: list_all_forest)
    next
      case NoCallback
      with assms FieldEvent True show ?thesis by simp
    qed
  qed
qed

text \<open>
  Claim C3, as the editor has it. The initial tree has the shape \<open>shape_present\<close> at
  every node, and every sequence of actions (adding a field, adding a property, updating,
  deleting, switching the type) keeps it: after the actions every node of type
  \<^verbatim>\<open>object\<close> has properties and every node of type \<^verbatim>\<open>array\<close> has items. The
  converse directions are not kept, since the type selector leaves the properties and
  the items of the old type in the field.
\<close>

theorem present_after_run:
  "list_all shape_present (forest_nodes initial_schema)
   \<and> (list_all shape_present (forest_nodes schema) \<longrightarrow>
        list_all shape_present (forest_nodes (run schema actions)))"
proof
  show "list_all shape_present (forest_nodes initial_schema)"
    by (simp add: initial_schema_def forest_nodes_def shape_present_def)
  show "list_all shape_present (forest_nodes schema) \<longrightarrow>
        list_all shape_present (forest_nodes (run schema actions))"
    by (induction actions arbitrary: schema) (simp_all add: present_Index)
qed

theorem present_after_run_witness:
  "list_all shape_present (forest_nodes (run initial_schema
        [FieldEvent 0 [] (TypeChange Object 1730000000000),
         FieldEvent 0 [] (TypeChange String 1730000000001)]))
   \<and> run initial_schema
        [FieldEvent 0 [] (TypeChange Object 1730000000000),
         FieldEvent 0 [] (TypeChange String 1730000000001)] =
      [SchemaField ''field_1'' ''name'' String True (Some ''The name of the user'') (Some []) None,
       SchemaField ''field_2'' ''age'' Number False (Some ''The age of the user'') None None]"
  using present_after_run [of initial_schema
        "[FieldEvent 0 [] (TypeChange Object 1730000000000),
         FieldEvent 0 [] (TypeChange String 1730000000001)]"]
  by (simp add: initial_schema_def Index_updateField_def
      onValueChange_def updateField_def spread_def no_updates_def Let_def)

text \<open>
  Claim C3 as stated fails: after switching the first field of the initial tree to
  \<^verbatim>\<open>object\<close> and back to \<^verbatim>\<open>string\<close> it is a string field that has
  properties.
\<close>

theorem exact_shape_counterexample:
  "\<not> list_all shape_exact (forest_nodes (run initial_schema
        [FieldEvent 0 [] (TypeChange Object 1730000000000),
         FieldEvent 0 [] (TypeChange String 1730000000001)]))"
  by (simp add: initial_schema_def forest_nodes_def shape_exact_def Index_updateField_def
      onValueChange_def updateField_def spread_def no_updates_def Let_def)

section \<open>The compiled schema\<close>

lemma forEach_loop:
  "fold (\<lambda>prop (ps, req). (assign ps (name prop) (c prop),
                             if required prop then req @ [name prop] else req))
     props (ps0, req0) =
   (fold (\<lambda>prop ps. assign ps (name prop) (c prop)) props ps0,
    req0 @ map name (filter required props))"
  by (induction props arbitrary: ps0 req0) simp_all

lemma assign_keys:
  "assign obj ''description'' v = AList.update ''description'' v obj"
  "assign obj ''properties'' v = AList.update ''properties'' v obj"
  "assign obj ''required'' v = AList.update ''required'' v obj"
  "assign obj ''items'' v = AList.update ''items'' v obj"
  by (simp_all add: assign_def array_index_def digit_value_def)

lemma convertField_unfold:
  "convertField (SchemaField i n t r d ps it) =
     JObject ([(''type'', JString (type_string t))]
       @ (case d of Some s \<Rightarrow> if s \<noteq> [] then [(''description'', JString s)] else [] | None \<Rightarrow> [])
       @ (case ps of
            Some props \<Rightarrow>
              if t = Object then
                [(''properties'',
                  JObject (fold (\<lambda>prop ps. assign ps (name prop) (convertField prop)) props []))]
                @ (if filter required props = [] then []
                   else [(''required'', JArray (map JString (map name (filter required props))))])
              else []
          | None \<Rightarrow> [])
       @ (case it of
            Some item \<Rightarrow> if t = Array then [(''items'', convertField item)] else []
          | None \<Rightarrow> []))"
  by (subst convertField.simps)
     (simp add: forEach_loop assign_keys Let_def split: option.split)

lemma generateJsonSchema_unfold:
  "generateJsonSchema schema =
     JObject ([(''type'', JString ''object''),
               (''properties'',
                JObject (fold (\<lambda>field ps. assign ps (name field) (convertField field)) schema []))]
       @ (if filter required schema = [] then []
          else [(''required'', JArray (map JString (map name (filter required schema))))]))"
  by (simp add: generateJsonSchema_def forEach_loop Let_def)

lemma set_put_index: "set (put_index n key v obj) = insert (key, v) (set obj)"
  by (induction obj) (auto split: option.split)

lemma map_of_put_index:
  "map_of obj key = None \<Longrightarrow> map_of (put_index n key v obj) = (map_of obj)(key \<mapsto> v)"
proof (induction obj)
  case Nil
  then show ?case by simp
next
  case (Cons kw obj)
  from Cons.prems have neq: "fst kw \<noteq> key" and none: "map_of obj key = None"
    by (cases kw; simp split: if_splits)+
  from none have IH: "map_of (put_index n key v obj) = (map_of obj)(key \<mapsto> v)"
    by (rule Cons.IH)
  show ?case
  proof (cases "\<exists>m. array_index (fst kw) = Some m \<and> m < n")
    case True
    then have "put_index n key v (kw # obj) = kw # put_index n key v obj"
      by auto
    with IH neq show ?thesis
      by (cases kw) (auto simp: fun_eq_iff)
  next
    case False
    then have "put_index n key v (kw # obj) = (key, v) # kw # obj"
      by (auto split: option.split)
    then show ?thesis
      by (cases kw) (auto simp: fun_eq_iff)
  qed
qed

lemma map_of_assign:
  "map_of (assign obj key v) k =
     (if key = ''__proto__'' then map_of obj k else if k = key then Some v else map_of obj k)"
  by (simp add: assign_def update_conv' map_of_put_index split: option.split)

lemmas assign_eval = assign_def array_index_def digit_value_def

lemma map_of_fold_assign:
  "map_of (fold (\<lambda>prop ps. assign ps (name prop) (c prop)) props ps0) k =
     (if k = ''__proto__'' then map_of ps0 k
      else case filter (\<lambda>prop. name prop = k) props of
             [] \<Rightarrow> map_of ps0 k
           | q # qs \<Rightarrow> Some (c (last (q # qs))))"
proof (induction props arbitrary: ps0)
  case Nil
  then show ?case by simp
next
  case (Cons p props)
  show ?case
    by (simp add: Cons.IH map_of_assign split: list.split)
qed

text \<open>
  What \<^verbatim>\<open>generateJsonSchema\<close> returns for every root sequence: the type is
  \<^verbatim>\<open>object\<close>; \<^verbatim>\<open>required\<close> is the array of the names of the required root
  fields in their order, and is absent when there is none; a key of \<^verbatim>\<open>properties\<close>
  other than \<^verbatim>\<open>__proto__\<close> is bound to the schema of the last root field of that
  name, and \<^verbatim>\<open>__proto__\<close> is never a key of it.
\<close>

lemma generateJsonSchema_root:
  "get_prop (generateJsonSchema schema) ''type'' = Some (JString ''object'')
   \<and> get_prop (generateJsonSchema schema) ''required'' =
       (if filter required schema = [] then None
        else Some (JArray (map JString (map name (filter required schema)))))
   \<and> get_prop (generateJsonSchema schema) ''properties'' =
       Some (JObject (fold (\<lambda>field ps. assign ps (name field) (convertField field)) schema []))"
  by (simp add: generateJsonSchema_unfold)

lemma generateJsonSchema_properties:
  "\<exists>obj. get_prop (generateJsonSchema schema) ''properties'' = Some (JObject obj)
     \<and> map_of obj ''__proto__'' = None
     \<and> (\<forall>k. k \<noteq> ''__proto__'' \<longrightarrow>
          map_of obj k =
            (case filter (\<lambda>field. name field = k) schema of
               [] \<Rightarrow> None
             | q # qs \<Rightarrow> Some (convertField (last (q # qs)))))"
  by (simp add: generateJsonSchema_unfold map_of_fold_assign split: list.split)

lemma convertField_properties:
  assumes "type field = Object" and "properties field = Some props"
  shows "\<exists>obj. get_prop (convertField field) ''properties'' = Some (JObject obj)
     \<and> map_of obj ''__proto__'' = None
     \<and> (\<forall>k. k \<noteq> ''__proto__'' \<longrightarrow>
          map_of obj k =
            (case filter (\<lambda>prop. name prop = k) props of
               [] \<Rightarrow> None
             | q # qs \<Rightarrow> Some (convertField (last (q # qs)))))"
  using assms
  by (cases field)
     (simp add: convertField_unfold map_of_fold_assign split: option.split list.split)

text \<open>
  Where the root fields have distinct names, none of them \<^verbatim>\<open>__proto__\<close> or an array
  index, \<^verbatim>\<open>properties\<close> lists them in the order of the root sequence. A name that
  is an array index is listed before the others.
\<close>

lemma update_fresh: "k \<notin> fst ` set al \<Longrightarrow> AList.update k v al = al @ [(k, v)]"
  by (induction al) auto

lemma fold_assign_plain:
  assumes "\<forall>p \<in> set props. name p \<noteq> ''__proto__'' \<and> array_index (name p) = None"
    and "distinct (map name props)"
    and "fst ` set ps0 \<inter> name ` set props = {}"
  shows "fold (\<lambda>prop ps. assign ps (name prop) (c prop)) props ps0 =
         ps0 @ map (\<lambda>p. (name p, c p)) props"
  using assms
proof (induction props arbitrary: ps0)
  case Nil
  then show ?case by simp
next
  case (Cons p props)
  from Cons.prems have step: "assign ps0 (name p) (c p) = ps0 @ [(name p, c p)]"
    by (simp add: assign_def update_fresh)
  have "fold (\<lambda>prop ps. assign ps (name prop) (c prop)) props (ps0 @ [(name p, c p)]) =
        (ps0 @ [(name p, c p)]) @ map (\<lambda>p. (name p, c p)) props"
    using Cons.prems by (intro Cons.IH) auto
  with step show ?case by simp
qed

lemma generateJsonSchema_properties_in_order:
  assumes "\<forall>field \<in> set schema. name field \<noteq> ''__proto__'' \<and> array_index (name field) = None"
    and "distinct (map name schema)"
  shows "get_prop (generateJsonSchema schema) ''properties'' =
         Some (JObject (map (\<lambda>field. (name field, convertField field)) schema))"
  using fold_assign_plain [OF assms, of "[]" convertField]
  by (simp add: generateJsonSchema_unfold)

text \<open>
  Claim C1, at a root field named \<^verbatim>\<open>__proto__\<close>. The claim has
  \<^verbatim>\<open>properties\<close> map the name of every root field to its schema. For this root
  sequence the result lists the name in \<^verbatim>\<open>required\<close> and has no property for it:
  the assignment to \<^verbatim>\<open>properties[field.name]\<close> creates none.
\<close>

theorem generateJsonSchema_proto_field:
  "generateJsonSchema [SchemaField ''field_1'' ''__proto__'' String True None None None] =
     JObject [(''type'', JString ''object''), (''properties'', JObject []),
              (''required'', JArray [JString ''__proto__''])]"
  by (simp add: generateJsonSchema_unfold convertField_unfold assign_eval)

text \<open>
  Claim C2. For an object field with properties, the schema of the field has the key
  \<^verbatim>\<open>required\<close> exactly when one of the properties is required, and its value is the
  array of the names of the required properties in the order of the properties.
\<close>

theorem object_required_key:
  assumes "type field = Object" and "properties field = Some props"
  shows "(get_prop (convertField field) ''required'' \<noteq> None) = (\<exists>prop \<in> set props. required prop)
     \<and> get_prop (convertField field) ''required'' =
         (if \<exists>prop \<in> set props. required prop
          then Some (JArray (map JString (map name (filter required props))))
          else None)"
  using assms
  by (cases field) (simp add: convertField_unfold filter_empty_conv split: option.split)

theorem object_required_key_witness:
  "get_prop (convertField (SchemaField ''field_3'' ''user'' Object False None (Some initial_schema) None)) ''required'' = Some (JArray [JString ''name''])"
  using object_required_key [of "SchemaField ''field_3'' ''user'' Object False None (Some initial_schema) None" initial_schema]
  by (simp add: initial_schema_def)

text \<open>
  Claim C6, at two properties named \<^verbatim>\<open>__proto__\<close>. The claim has the name shared
  by several properties bound to the schema of the last of them. Here the properties
  object of the result is empty: it binds the name to neither of the two.
\<close>

theorem convertField_duplicate_proto:
  "convertField (SchemaField ''field_1'' ''user'' Object False None
       (Some [SchemaField ''field_2'' ''__proto__'' String False None None None,
              SchemaField ''field_3'' ''__proto__'' Number False None None None]) None) =
     JObject [(''type'', JString ''object''), (''properties'', JObject [])]"
  by (simp add: convertField_unfold assign_def)

text \<open>
  Claim C9. The schema of a field that is not an object has neither the key
  \<^verbatim>\<open>properties\<close> nor the key \<^verbatim>\<open>required\<close>, and the schema of a field that is not
  an array has no key \<^verbatim>\<open>items\<close>, whatever properties and items the field still
  carries from an earlier type.
\<close>

theorem no_leftover_keys:
  "(type field \<noteq> Object \<longrightarrow>
      get_prop (convertField field) ''properties'' = None
      \<and> get_prop (convertField field) ''required'' = None)
   \<and> (type field \<noteq> Array \<longrightarrow> get_prop (convertField field) ''items'' = None)"
  by (cases field) (simp add: convertField_unfold split: option.split)

theorem no_leftover_keys_witness:
  "get_prop (convertField (SchemaField ''field_1'' ''name'' String True None
       (Some [SchemaField ''field_4'' ''first'' String True None None None])
       (Some (SchemaField ''items_1730000000000'' ''item'' String False None None None))))
     ''properties'' = None
   \<and> get_prop (convertField (SchemaField ''field_1'' ''name'' String True None
       (Some [SchemaField ''field_4'' ''first'' String True None None None])
       (Some (SchemaField ''items_1730000000000'' ''item'' String False None None None))))
     ''required'' = None
   \<and> get_prop (convertField (SchemaField ''field_1'' ''name'' String True None
       (Some [SchemaField ''field_4'' ''first'' String True None None None])
       (Some (SchemaField ''items_1730000000000'' ''item'' String False None None None))))
     ''items'' = None"
  using no_leftover_keys [of "SchemaField ''field_1'' ''name'' String True None
       (Some [SchemaField ''field_4'' ''first'' String True None None None])
       (Some (SchemaField ''items_1730000000000'' ''item'' String False None None None))"]
  by simp

section \<open>Identifiers and the compiled schema\<close>

lemma strip_ids_sel [simp]:
  "name (strip_ids field) = name field"
  "required (strip_ids field) = required field"
  by (cases field, simp)+

lemma fold_assign_map:
  assumes "\<And>p. p \<in> set props \<Longrightarrow> c (g p) = c p \<and> name (g p) = name p"
  shows "fold (\<lambda>prop ps. assign ps (name prop) (c prop)) (map g props) ps0 =
         fold (\<lambda>prop ps. assign ps (name prop) (c prop)) props ps0"
  using assms by (induction props arbitrary: ps0) simp_all

lemma required_names_strip:
  "map name (filter required (map strip_ids props)) = map name (filter required props)"
  by (induction props) simp_all

lemma filter_required_strip:
  "(filter required (map strip_ids props) = []) = (filter required props = [])"
  by (simp add: filter_empty_conv)

lemma convertField_strip_ids: "convertField (strip_ids field) = convertField field"
proof (induction field)
  case (SchemaField i n t r d ps it)
  have props: "\<And>props. ps = Some props \<Longrightarrow>
      fold (\<lambda>prop ps. assign ps (name prop) (convertField prop)) (map strip_ids props) [] =
      fold (\<lambda>prop ps. assign ps (name prop) (convertField prop)) props []"
    using SchemaField.IH(1) by (intro fold_assign_map) simp
  have item: "\<And>item. it = Some item \<Longrightarrow> convertField (strip_ids item) = convertField item"
    using SchemaField.IH(2) by simp
  show ?case
    by (simp add: convertField_unfold props item required_names_strip filter_required_strip
        split: option.split)
qed

lemma generateJsonSchema_strip_ids:
  "generateJsonSchema (map strip_ids schema) = generateJsonSchema schema"
proof -
  have "fold (\<lambda>field ps. assign ps (name field) (convertField field)) (map strip_ids schema) [] =
        fold (\<lambda>field ps. assign ps (name field) (convertField field)) schema []"
    by (intro fold_assign_map) (simp add: convertField_strip_ids)
  then show ?thesis
    by (simp add: generateJsonSchema_unfold required_names_strip filter_required_strip)
qed

lemma set_assign: "set (assign obj key v) \<subseteq> insert (key, v) (set obj)"
proof -
  have "set (AList.update key v obj) \<subseteq> insert (key, v) (set obj)"
    by (induction obj) auto
  then show ?thesis by (auto simp: assign_def set_put_index split: option.split)
qed

lemma set_fold_assign:
  "set (fold (\<lambda>prop ps. assign ps (name prop) (c prop)) props ps0)
     \<subseteq> set ps0 \<union> (\<lambda>p. (name p, c p)) ` set props"
proof (induction props arbitrary: ps0)
  case Nil
  then show ?case by simp
next
  case (Cons p props)
  have "set (fold (\<lambda>prop ps. assign ps (name prop) (c prop)) props (assign ps0 (name p) (c p)))
     \<subseteq> set (assign ps0 (name p) (c p)) \<union> (\<lambda>p. (name p, c p)) ` set props"
    by (rule Cons.IH)
  with set_assign [of ps0 "name p" "c p"] show ?case by auto
qed

lemma json_keys_paths: "json_keys j = map snd (keys_with_path j)"
proof (induction j)
  case (JString s)
  show ?case by simp
next
  case (JArray vs)
  then show ?case by (simp add: map_concat o_def cong: map_cong)
next
  case (JObject obj)
  have "json_keys (snd kv) = map snd (keys_with_path (snd kv))" if "kv \<in> set obj" for kv
  proof -
    obtain a b where kv: "kv = (a, b)" by (cases kv)
    with that have "b \<in> Basic_BNFs.snds kv" by simp
    with that JObject.IH [of kv b] kv show ?thesis by simp
  qed
  then show ?case by (simp add: map_concat o_def cong: map_cong)
qed

lemma set_keys_with_path_object:
  "set (keys_with_path (JObject obj)) =
     (\<Union>kv \<in> set obj. insert ([], fst kv) (apfst ((#) (fst kv)) ` set (keys_with_path (snd kv))))"
  by simp

lemma set_mapping_keys:
  "set (mapping_keys props) =
     (\<Union>p \<in> set props. insert ([], name p) (apfst ((#) (name p)) ` set (property_keys p)))"
  by (simp add: mapping_keys_def)

lemma property_keys_unfold:
  "set (property_keys (SchemaField i n t r d ps it)) =
     (case ps of
        Some props \<Rightarrow> if t = Object then apfst ((#) ''properties'') ` set (mapping_keys props) else {}
      | None \<Rightarrow> {})
     \<union> (case it of
          Some item \<Rightarrow> if t = Array then apfst ((#) ''items'') ` set (property_keys item) else {}
        | None \<Rightarrow> {})"
  by (simp add: mapping_keys_def split: option.split)

lemma paths_of_mapping:
  assumes "\<And>q pk. q \<in> set props \<Longrightarrow> pk \<in> set (keys_with_path (c q))
             \<Longrightarrow> snd pk \<in> fixed_keys \<or> pk \<in> set (property_keys q)"
    and "pk \<in> set (keys_with_path
           (JObject (fold (\<lambda>prop ps. assign ps (name prop) (c prop)) props [])))"
  shows "snd pk \<in> fixed_keys \<or> pk \<in> set (mapping_keys props)"
proof -
  from assms(2) obtain kv where
    kv: "kv \<in> set (fold (\<lambda>prop ps. assign ps (name prop) (c prop)) props [])"
    and pk: "pk = ([], fst kv) \<or> pk \<in> apfst ((#) (fst kv)) ` set (keys_with_path (snd kv))"
    unfolding set_keys_with_path_object by blast
  from kv set_fold_assign [of c props "[]"] obtain q where
    q: "q \<in> set props" "kv = (name q, c q)"
    by auto
  from pk show ?thesis
  proof
    assume "pk = ([], fst kv)"
    with q show ?thesis
      unfolding set_mapping_keys by auto
  next
    assume "pk \<in> apfst ((#) (fst kv)) ` set (keys_with_path (snd kv))"
    then obtain pk' where pk': "pk' \<in> set (keys_with_path (c q))" "pk = apfst ((#) (name q)) pk'"
      using q by auto
    from assms(1) [OF q(1) pk'(1)] have "snd pk' \<in> fixed_keys \<or> pk' \<in> set (property_keys q)" .
    then show ?thesis
    proof
      assume "snd pk' \<in> fixed_keys"
      with pk'(2) show ?thesis by (cases pk') simp
    next
      assume "pk' \<in> set (property_keys q)"
      with pk' q(1) have "pk \<in> set (mapping_keys props)"
        unfolding set_mapping_keys by blast
      then show ?thesis ..
    qed
  qed
qed

lemma paths_of_convertField:
  "pk \<in> set (keys_with_path (convertField field))
     \<Longrightarrow> snd pk \<in> fixed_keys \<or> pk \<in> set (property_keys field)"
proof (induction field arbitrary: pk)
  case (SchemaField i n t r d ps it)
  let ?f = "SchemaField i n t r d ps it"
  have fixed: "''type'' \<in> fixed_keys" "''description'' \<in> fixed_keys"
    "''properties'' \<in> fixed_keys" "''required'' \<in> fixed_keys" "''items'' \<in> fixed_keys"
    by (simp_all add: fixed_keys_def)
  have strings: "keys_with_path (JArray (map (JString \<circ> name) xs)) = []" for xs
    by (induction xs) simp_all
  from SchemaField.prems obtain kv where
    kv: "kv \<in> set
      ([(''type'', JString (type_string t))]
       @ (case d of Some s \<Rightarrow> if s \<noteq> [] then [(''description'', JString s)] else []
          | None \<Rightarrow> [])
       @ (case ps of
            Some props \<Rightarrow>
              if t = Object then
                [(''properties'',
                  JObject (fold (\<lambda>prop ps. assign ps (name prop) (convertField prop)) props []))]
                @ (if filter required props = [] then []
                   else [(''required'', JArray (map JString (map name (filter required props))))])
              else []
          | None \<Rightarrow> [])
       @ (case it of
            Some item \<Rightarrow> if t = Array then [(''items'', convertField item)] else []
          | None \<Rightarrow> []))"
    and pk: "pk = ([], fst kv) \<or> pk \<in> apfst ((#) (fst kv)) ` set (keys_with_path (snd kv))"
    unfolding convertField_unfold set_keys_with_path_object by blast
  from kv consider
      (type) "kv = (''type'', JString (type_string t))"
    | (description) s where "kv = (''description'', JString s)"
    | (properties) props where "ps = Some props" "t = Object"
        "kv = (''properties'',
               JObject (fold (\<lambda>prop ps. assign ps (name prop) (convertField prop)) props []))"
    | (required) xs where "kv = (''required'', JArray (map (JString \<circ> name) xs))"
    | (items) item where "it = Some item" "t = Array" "kv = (''items'', convertField item)"
    by (auto split: option.splits if_splits)
  then show ?case
  proof cases
    case type
    with pk fixed show ?thesis by auto
  next
    case description
    with pk fixed show ?thesis by auto
  next
    case (required xs)
    with pk fixed strings [of xs] show ?thesis by auto
  next
    case (properties props)
    from pk show ?thesis
    proof
      assume "pk = ([], fst kv)"
      with properties fixed show ?thesis by simp
    next
      assume "pk \<in> apfst ((#) (fst kv)) ` set (keys_with_path (snd kv))"
      with properties obtain pk' where
        pk': "pk' \<in> set (keys_with_path
               (JObject (fold (\<lambda>prop ps. assign ps (name prop) (convertField prop)) props [])))"
          "pk = apfst ((#) ''properties'') pk'"
        by auto
      have "snd pk' \<in> fixed_keys \<or> pk' \<in> set (mapping_keys props)"
      proof (rule paths_of_mapping [OF _ pk'(1)])
        fix q qk
        assume "q \<in> set props" and "qk \<in> set (keys_with_path (convertField q))"
        with properties(1) show "snd qk \<in> fixed_keys \<or> qk \<in> set (property_keys q)"
          by (intro SchemaField.IH(1)) simp_all
      qed
      then show ?thesis
      proof
        assume "snd pk' \<in> fixed_keys"
        with pk'(2) show ?thesis by (cases pk') simp
      next
        assume "pk' \<in> set (mapping_keys props)"
        with pk'(2) properties(1,2) have "pk \<in> set (property_keys ?f)"
          unfolding property_keys_unfold by simp
        then show ?thesis ..
      qed
    qed
  next
    case (items item)
    from pk show ?thesis
    proof
      assume "pk = ([], fst kv)"
      with items fixed show ?thesis by simp
    next
      assume "pk \<in> apfst ((#) (fst kv)) ` set (keys_with_path (snd kv))"
      with items obtain pk' where
        pk': "pk' \<in> set (keys_with_path (convertField item))" "pk = apfst ((#) ''items'') pk'"
        by auto
      from items(1) pk'(1) have "snd pk' \<in> fixed_keys \<or> pk' \<in> set (property_keys item)"
        by (intro SchemaField.IH(2)) simp_all
      then show ?thesis
      proof
        assume "snd pk' \<in> fixed_keys"
        with pk'(2) show ?thesis by (cases pk') simp
      next
        assume "pk' \<in> set (property_keys item)"
        with pk'(2) items(1,2) have "pk \<in> set (property_keys ?f)"
          unfolding property_keys_unfold by simp
        then show ?thesis ..
      qed
    qed
  qed
qed

lemma paths_of_generateJsonSchema:
  assumes "pk \<in> set (keys_with_path (generateJsonSchema schema))"
  shows "snd pk \<in> fixed_keys \<or> pk \<in> set (root_property_keys schema)"
proof -
  have strings: "keys_with_path (JArray (map (JString \<circ> name) xs)) = []" for xs
    by (induction xs) simp_all
  have fixed: "''type'' \<in> fixed_keys" "''properties'' \<in> fixed_keys" "''required'' \<in> fixed_keys"
    by (simp_all add: fixed_keys_def)
  from assms obtain kv where
    kv: "kv \<in> set
      ([(''type'', JString ''object''),
        (''properties'',
         JObject (fold (\<lambda>field ps. assign ps (name field) (convertField field)) schema []))]
       @ (if filter required schema = [] then []
          else [(''required'', JArray (map JString (map name (filter required schema))))]))"
    and pk: "pk = ([], fst kv) \<or> pk \<in> apfst ((#) (fst kv)) ` set (keys_with_path (snd kv))"
    unfolding generateJsonSchema_unfold set_keys_with_path_object by blast
  from kv consider
      (type) "kv = (''type'', JString ''object'')"
    | (properties) "kv = (''properties'',
         JObject (fold (\<lambda>field ps. assign ps (name field) (convertField field)) schema []))"
    | (required) xs where "kv = (''required'', JArray (map (JString \<circ> name) xs))"
    by (auto split: if_splits)
  then show ?thesis
  proof cases
    case type
    with pk fixed show ?thesis by auto
  next
    case (required xs)
    with pk fixed strings [of xs] show ?thesis by auto
  next
    case properties
    from pk show ?thesis
    proof
      assume "pk = ([], fst kv)"
      with properties fixed show ?thesis by simp
    next
      assume "pk \<in> apfst ((#) (fst kv)) ` set (keys_with_path (snd kv))"
      with properties obtain pk' where
        pk': "pk' \<in> set (keys_with_path
               (JObject (fold (\<lambda>field ps. assign ps (name field) (convertField field)) schema [])))"
          "pk = apfst ((#) ''properties'') pk'"
        by auto
      have "snd pk' \<in> fixed_keys \<or> pk' \<in> set (mapping_keys schema)"
        by (rule paths_of_mapping [OF _ pk'(1)]) (rule paths_of_convertField)
      then show ?thesis
      proof
        assume "snd pk' \<in> fixed_keys"
        with pk'(2) show ?thesis by (cases pk') simp
      next
        assume "pk' \<in> set (mapping_keys schema)"
        with pk'(2) have "pk \<in> set (root_property_keys schema)"
          by (simp add: root_property_keys_def)
        then show ?thesis ..
      qed
    qed
  qed
qed

text \<open>
  Claim C10, as the compiler has it. Two root sequences that differ only in the
  identifiers of their nodes have the same schema. The keys listed with their paths are
  all the keys of the schema, and a key \<^verbatim>\<open>id\<close> stands only in a properties mapping
  of the schema, at the place of a compiled field whose name is \<^verbatim>\<open>id\<close>: a root
  field, or a property of an object field that is compiled. The objects that
  \<^verbatim>\<open>generateJsonSchema\<close> and \<^verbatim>\<open>convertField\<close> build themselves have no key
  \<^verbatim>\<open>id\<close>.
\<close>

theorem ids_do_not_matter:
  "(map strip_ids schema = map strip_ids schema' \<longrightarrow>
      generateJsonSchema schema = generateJsonSchema schema')
   \<and> set (json_keys (generateJsonSchema schema)) =
       snd ` set (keys_with_path (generateJsonSchema schema))
   \<and> (\<forall>path. (path, ''id'') \<in> set (keys_with_path (generateJsonSchema schema)) \<longrightarrow>
        (path, ''id'') \<in> set (root_property_keys schema))"
proof (intro conjI allI impI)
  assume "map strip_ids schema = map strip_ids schema'"
  then show "generateJsonSchema schema = generateJsonSchema schema'"
    by (metis generateJsonSchema_strip_ids)
next
  show "set (json_keys (generateJsonSchema schema)) =
       snd ` set (keys_with_path (generateJsonSchema schema))"
    by (simp add: json_keys_paths)
next
  fix path
  assume "(path, ''id'') \<in> set (keys_with_path (generateJsonSchema schema))"
  then have "snd (path, ''id'') \<in> fixed_keys \<or> (path, ''id'') \<in> set (root_property_keys schema)"
    by (rule paths_of_generateJsonSchema)
  moreover have "''id'' \<notin> fixed_keys"
    by (simp add: fixed_keys_def)
  ultimately show "(path, ''id'') \<in> set (root_property_keys schema)"
    by simp
qed

theorem ids_do_not_matter_witness:
  "generateJsonSchema [SchemaField ''field_1'' ''id'' String False None None None] =
   generateJsonSchema
     [SchemaField ''field_1730000000000_k3j9x0q2a'' ''id'' String False None None None]
   \<and> keys_with_path (generateJsonSchema
         [SchemaField ''field_1'' ''id'' String False None None None]) =
       [([], ''type''), ([], ''properties''), ([''properties''], ''id''),
        ([''properties'', ''id''], ''type'')]
   \<and> root_property_keys [SchemaField ''field_1'' ''id'' String False None None None] =
       [([''properties''], ''id'')]"
  using ids_do_not_matter [of "[SchemaField ''field_1'' ''id'' String False None None None]"
      "[SchemaField ''field_1730000000000_k3j9x0q2a'' ''id'' String False None None None]"]
  by (simp add: generateJsonSchema_unfold convertField_unfold assign_eval
      root_property_keys_def mapping_keys_def)

text \<open>
  Claim C10 as stated fails: a field named \<^verbatim>\<open>id\<close> puts the key \<^verbatim>\<open>id\<close> into
  \<^verbatim>\<open>properties\<close>.
\<close>

theorem id_key_counterexample:
  "''id'' \<in> set (json_keys (generateJsonSchema
      [SchemaField ''field_1'' ''id'' String False None None None]))"
  by (simp add: generateJsonSchema_unfold convertField_unfold assign_eval)

end
